theory Spec2Isabelle
  imports Main "HOL-Library.Word"
begin

unbundle bit_operations_syntax

section \<open>Session registry of the dashboard (src/dashboard/main.py)\<close>

text \<open>
  The dashboard keeps its sessions in a Panel \<open>Tabs\<close> widget, \<open>session_tabs\<close>, and reads
  the name of a new session from a text input, \<open>box_name_TextInput\<close>. The widget holds
  its tabs in order; each tab has a name (the list \<open>session_tabs._names\<close>) and an object.
  The model keeps the tabs as a list of pairs, the index of the focused tab
  (\<open>session_tabs.active\<close>), the two attributes of the text input the callbacks touch
  (\<open>value\<close> and \<open>placeholder\<close>), and the attribute assignments the callbacks have made,
  in order, so that "the callback did not assign the input" is a statement about the model.
\<close>

datatype renderable = Welcome_column | LDashboard_layout | Dashboard_layout

datatype ui_write =
    Set_placeholder string
  | Set_value string
  | Append_tab string renderable
  | Set_active int

record ui_state =
  session_tabs :: "(string \<times> renderable) list"
  active :: int
  box_value :: string
  box_placeholder :: string
  writes :: "ui_write list"

text \<open>\<open>session_tabs._names\<close>: the names of the tabs, in tab order.\<close>

definition tab_names :: "ui_state \<Rightarrow> string list" where
  "tab_names st = map fst (session_tabs st)"

text \<open>
  The module's top level: \<open>pn.Tabs(("Welcome", tab_1))\<close>, an input with the placeholder
  "Enter a box name" and no value. A new \<open>Tabs\<close> has \<open>active = 0\<close>.
\<close>

definition initial_ui :: ui_state where
  "initial_ui =
     \<lparr>session_tabs = [(''Welcome'', Welcome_column)], active = 0, box_value = [],
      box_placeholder = ''Enter a box name'', writes = []\<rparr>"

text \<open>The four attribute assignments the callbacks make.\<close>

definition set_placeholder :: "string \<Rightarrow> ui_state \<Rightarrow> ui_state" where
  "set_placeholder s st = st\<lparr>box_placeholder := s, writes := writes st @ [Set_placeholder s]\<rparr>"

definition set_value :: "string \<Rightarrow> ui_state \<Rightarrow> ui_state" where
  "set_value s st = st\<lparr>box_value := s, writes := writes st @ [Set_value s]\<rparr>"

definition append_tab :: "string \<Rightarrow> renderable \<Rightarrow> ui_state \<Rightarrow> ui_state" where
  "append_tab n obj st =
     st\<lparr>session_tabs := session_tabs st @ [(n, obj)], writes := writes st @ [Append_tab n obj]\<rparr>"

definition set_active :: "int \<Rightarrow> ui_state \<Rightarrow> ui_state" where
  "set_active i st = st\<lparr>active := i, writes := writes st @ [Set_active i]\<rparr>"

text \<open>
  \<^verbatim>\<open>
  def make_new_local_instance_tab(_):
      if box_name_TextInput.value == "":
          box_name_TextInput.placeholder = "Please enter a name and try again."
      elif box_name_TextInput.value in session_tabs._names:
          box_name_TextInput.value = ""
          box_name_TextInput.placeholder = "Name entered already exists. Please enter a different name."
      else:
          new_dashboard = dashboard_lite.LDashboard()
          session_tabs.append((f"LOCAL - {box_name_TextInput.value}", new_dashboard.layout()))
          session_tabs.active = len(session_tabs) - 1
          box_name_TextInput.value = ""
          box_name_TextInput.placeholder = ""
  \<close>
\<close>

definition empty_name_prompt :: string where
  "empty_name_prompt = ''Please enter a name and try again.''"

definition duplicate_name_message :: string where
  "duplicate_name_message = ''Name entered already exists. Please enter a different name.''"

definition make_new_local_instance_tab :: "ui_state \<Rightarrow> ui_state" where
  "make_new_local_instance_tab st =
     (if box_value st = [] then set_placeholder empty_name_prompt st
      else if box_value st \<in> set (tab_names st) then
        set_placeholder duplicate_name_message (set_value [] st)
      else
        (let st1 = append_tab (''LOCAL - '' @ box_value st) LDashboard_layout st;
             st2 = set_active (int (length (session_tabs st1)) - 1) st1;
             st3 = set_value [] st2
         in set_placeholder [] st3))"

text \<open>
  \<open>make_new_network_instance_tab\<close> is the same callback with \<open>dashboard.Dashboard()\<close> and
  the label \<open>f"NETWORK - {box_name_TextInput.value}"\<close>.
\<close>

definition make_new_network_instance_tab :: "ui_state \<Rightarrow> ui_state" where
  "make_new_network_instance_tab st =
     (if box_value st = [] then set_placeholder empty_name_prompt st
      else if box_value st \<in> set (tab_names st) then
        set_placeholder duplicate_name_message (set_value [] st)
      else
        (let st1 = append_tab (''NETWORK - '' @ box_value st) Dashboard_layout st;
             st2 = set_active (int (length (session_tabs st1)) - 1) st1;
             st3 = set_value [] st2
         in set_placeholder [] st3))"

text \<open>
  The spec's \<open>createSession(name, kind)\<close>: the user types \<open>name\<close> into the input and clicks
  the button of the kind, which runs the callback registered for it with \<open>on_click\<close>.
\<close>

datatype kind = Local | Network

definition type_name :: "string \<Rightarrow> ui_state \<Rightarrow> ui_state" where
  "type_name n st = st\<lparr>box_value := n\<rparr>"

definition createSession :: "kind \<Rightarrow> string \<Rightarrow> ui_state \<Rightarrow> ui_state" where
  "createSession k n st =
     (case k of
        Local \<Rightarrow> make_new_local_instance_tab (type_name n st)
      | Network \<Rightarrow> make_new_network_instance_tab (type_name n st))"

fun create_sessions :: "(kind \<times> string) list \<Rightarrow> ui_state \<Rightarrow> ui_state" where
  "create_sessions [] st = st"
| "create_sessions ((k, n) # cs) st = create_sessions cs (createSession k n st)"

text \<open>The label and the object of the tab a successful call appends.\<close>

definition tab_label :: "kind \<Rightarrow> string \<Rightarrow> string" where
  "tab_label k n = (case k of Local \<Rightarrow> ''LOCAL - '' @ n | Network \<Rightarrow> ''NETWORK - '' @ n)"

definition tab_object :: "kind \<Rightarrow> renderable" where
  "tab_object k = (case k of Local \<Rightarrow> LDashboard_layout | Network \<Rightarrow> Dashboard_layout)"

section \<open>Process supervisor of the desktop launcher (src/dashboard/main.py)\<close>

text \<open>
  \<^verbatim>\<open>
  def on_closing():
      if messagebox.askokcancel("Quit REACHER Dashboard", "Do you really want to quit? ..."):
          root.destroy()
          if panel_process.is_alive():
              panel_process.terminate()
              panel_process.join()
          sys.exit(0)
  \<close>
  The state is the window, the server process \<open>panel_process\<close> and the supervisor's exit
  status (\<open>None\<close> while it runs). The calls the handler makes are recorded in order.
  \<open>join()\<close> is called without a timeout: it returns once the process has exited and never
  otherwise, so a handler that does not return is the value \<open>None\<close>. Whether the process
  exits once \<open>terminate()\<close> has been called is a fact of the environment
  (\<open>exits_on_terminate\<close>).
\<close>

datatype sup_call =
    Root_destroy
  | Process_terminate
  | Process_join "nat option"
  | Sys_exit int

record supervisor =
  window_open :: bool
  panel_alive :: bool
  terminate_sent :: bool
  exits_on_terminate :: bool
  exit_status :: "int option"
  calls :: "sup_call list"

definition root_destroy :: "supervisor \<Rightarrow> supervisor" where
  "root_destroy s = s\<lparr>window_open := False, calls := calls s @ [Root_destroy]\<rparr>"

definition process_terminate :: "supervisor \<Rightarrow> supervisor" where
  "process_terminate s = s\<lparr>terminate_sent := True, calls := calls s @ [Process_terminate]\<rparr>"

text \<open>\<open>panel_process.join()\<close>, no timeout: returns when the process is no longer alive.\<close>

definition process_join :: "supervisor \<Rightarrow> supervisor option" where
  "process_join s =
     (if \<not> panel_alive s then Some (s\<lparr>calls := calls s @ [Process_join None]\<rparr>)
      else if terminate_sent s \<and> exits_on_terminate s then
        Some (s\<lparr>panel_alive := False, calls := calls s @ [Process_join None]\<rparr>)
      else None)"

definition sys_exit :: "int \<Rightarrow> supervisor \<Rightarrow> supervisor" where
  "sys_exit c s = s\<lparr>exit_status := Some c, calls := calls s @ [Sys_exit c]\<rparr>"

text \<open>The argument \<open>confirmed\<close> is what \<open>messagebox.askokcancel\<close> returns.\<close>

definition on_closing :: "bool \<Rightarrow> supervisor \<Rightarrow> supervisor option" where
  "on_closing confirmed s =
     (if confirmed then
        (let s1 = root_destroy s in
         if panel_alive s1 then
           (case process_join (process_terminate s1) of
              None \<Rightarrow> None
            | Some s2 \<Rightarrow> Some (sys_exit 0 s2))
         else Some (sys_exit 0 s1))
      else Some s)"

text \<open>The launcher after \<open>panel_process.start()\<close> and \<open>create_window()\<close>.\<close>

definition server_running :: "bool \<Rightarrow> supervisor" where
  "server_running responsive =
     \<lparr>window_open = True, panel_alive = True, terminate_sent = False,
      exits_on_terminate = responsive, exit_status = None, calls = []\<rparr>"

section \<open>Shutdown coordinator (src/api/app.py)\<close>

text \<open>
  \<^verbatim>\<open>
  def shutdown_service(signal, frame):
      logging.info("Shutting down services...")
      stop_event.set()
      sys.exit(0)

  signal.signal(signal.SIGINT, shutdown_service)
  signal.signal(signal.SIGTERM, shutdown_service)
  \<close>
  The hosting process: the shared flag \<open>stop_event\<close>, whether the broadcast thread is
  still in its loop, the log, and the exit status (\<open>None\<close> while the process runs).
\<close>

datatype signum = SIGINT | SIGTERM | SIGHUP | SIGUSR1

datatype host_call = Log_info string | Stop_event_set | Thread_join | Host_exit int

record host =
  stop_event :: bool
  broadcast_in_loop :: bool
  host_exit :: "int option"
  host_calls :: "host_call list"

definition shutdown_service :: "signum \<Rightarrow> host \<Rightarrow> host" where
  "shutdown_service sig h =
     (let h1 = h\<lparr>host_calls := host_calls h @ [Log_info ''Shutting down services...'']\<rparr>;
          h2 = h1\<lparr>stop_event := True, host_calls := host_calls h1 @ [Stop_event_set]\<rparr>
      in h2\<lparr>host_exit := Some 0, host_calls := host_calls h2 @ [Host_exit 0]\<rparr>)"

text \<open>The handlers the module registers; a signal with no handler leaves the model as it is.\<close>

definition handler_of :: "signum \<Rightarrow> (signum \<Rightarrow> host \<Rightarrow> host) option" where
  "handler_of sig =
     (if sig = SIGINT then Some shutdown_service
      else if sig = SIGTERM then Some shutdown_service
      else None)"

definition receive_signal :: "signum \<Rightarrow> host \<Rightarrow> host" where
  "receive_signal sig h = (case handler_of sig of None \<Rightarrow> h | Some f \<Rightarrow> f sig h)"

text \<open>A hosting process whose broadcast thread is in its send loop.\<close>

definition host_broadcasting :: host where
  "host_broadcasting =
     \<lparr>stop_event = False, broadcast_in_loop = True, host_exit = None, host_calls = []\<rparr>"

section \<open>Broadcast service (src/api/app.py)\<close>

subsection \<open>The instance key: \<open>str(uuid.uuid4())\<close>\<close>

text \<open>
  The service calls two functions of Python's standard library on its key, modelled here
  after CPython. \<open>uuid.uuid4()\<close> reads 16 random bytes as a 128-bit integer and
  overwrites six of its bits:
  \<^verbatim>\<open>
      int &= ~(0xc000 << 48); int |= 0x8000 << 48      # variant RFC 4122
      int &= ~(0xf000 << 64); int |= version << 76     # version 4
  \<close>
  The argument \<open>r\<close> is the integer read from \<open>os.urandom(16)\<close>.
\<close>

definition uuid4 :: "128 word \<Rightarrow> 128 word" where
  "uuid4 r =
     (let i1 = r AND NOT (push_bit 48 0xc000);
          i2 = i1 OR push_bit 48 0x8000;
          i3 = i2 AND NOT (push_bit 64 0xf000)
      in i3 OR push_bit 76 4)"

text \<open>
  The 122 bits of the draw that \<open>uuid4\<close> keeps: all but the two variant bits and the
  four version bits.
\<close>

definition random_bits :: "128 word \<Rightarrow> 128 word" where
  "random_bits r = r AND NOT (push_bit 48 0xc000) AND NOT (push_bit 64 0xf000)"

text \<open>
  \<open>str\<close> of a UUID is \<open>'%032x' % int\<close>, cut into groups of 8, 4, 4, 4 and 12 digits
  with dashes between them. \<open>hex_nibble w k\<close> is the digit of the four bits from bit
  \<open>k\<close> upwards.
\<close>

definition hex_digit :: "nat \<Rightarrow> char" where
  "hex_digit n = (if n < 16 then ''0123456789abcdef'' ! n else CHR ''?'')"

definition hex_nibble :: "128 word \<Rightarrow> nat \<Rightarrow> char" where
  "hex_nibble w k = hex_digit (unat (drop_bit k w AND 0xF))"

definition hex32 :: "128 word \<Rightarrow> string" where
  "hex32 w = map (\<lambda>i. hex_nibble w (4 * (31 - i))) [0..<32]"

definition uuid_str :: "128 word \<Rightarrow> string" where
  "uuid_str w =
     (let h = hex32 w
      in take 8 h @ ''-'' @ take 4 (drop 8 h) @ ''-'' @ take 4 (drop 12 h) @ ''-'' @
         take 4 (drop 16 h) @ ''-'' @ drop 20 h)"

text \<open>
  A version-4 UUID in its text form: 36 characters, dashes at the positions 8, 13, 18 and
  23, lower-case hexadecimal digits elsewhere, the version digit \<open>4\<close> at position 14 and
  a variant digit \<open>8\<close>, \<open>9\<close>, \<open>a\<close> or \<open>b\<close> at position 19.
\<close>

definition is_hex_char :: "char \<Rightarrow> bool" where
  "is_hex_char c = (c \<in> set ''0123456789abcdef'')"

definition is_uuid4_text :: "string \<Rightarrow> bool" where
  "is_uuid4_text s =
     (length s = 36 \<and>
      list_all (\<lambda>i. if i \<in> set [8, 13, 18, 23] then s ! i = CHR ''-'' else is_hex_char (s ! i))
        [0..<36] \<and>
      s ! 14 = CHR ''4'' \<and> s ! 19 \<in> set ''89ab'')"


subsection \<open>The payload text: \<open>json.dumps\<close> and a reader for it\<close>

text \<open>
  The payload is a dict from strings to strings and one integer; a dict keeps insertion
  order, so it is an association list. \<open>json.dumps\<close> with its default arguments writes
  the items as \<open>"key": value\<close>, separated by comma and space, between braces. A string is
  written between double quotes with \<open>ensure_ascii\<close> escaping: the quote, the backslash
  and the five control characters with a short form get their two-character escape, every
  other character outside the printable ASCII range gets \<open>\u00XX\<close>. Characters are the
  code points below 256. An integer is written in decimal. The result is ASCII, so
  \<open>.encode('utf-8')\<close> leaves it as it is.
\<close>

datatype pyval = PStr string | PInt int

definition json_escape_char :: "char \<Rightarrow> string" where
  "json_escape_char c =
     (if c = CHR 0x22 then [CHR 0x5C, CHR 0x22]
      else if c = CHR 0x5C then [CHR 0x5C, CHR 0x5C]
      else if c = CHR 0x08 then [CHR 0x5C, CHR ''b'']
      else if c = CHR 0x0C then [CHR 0x5C, CHR ''f'']
      else if c = CHR 0x0A then [CHR 0x5C, CHR ''n'']
      else if c = CHR 0x0D then [CHR 0x5C, CHR ''r'']
      else if c = CHR 0x09 then [CHR 0x5C, CHR ''t'']
      else if (of_char c :: nat) < 0x20 \<or> 0x7E < (of_char c :: nat) then
        [CHR 0x5C, CHR ''u'', CHR ''0'', CHR ''0'',
         hex_digit (of_char c div 16), hex_digit (of_char c mod 16)]
      else [c])"

definition encode_basestring_ascii :: "string \<Rightarrow> string" where
  "encode_basestring_ascii s = CHR 0x22 # concat (map json_escape_char s) @ [CHR 0x22]"

fun decimal :: "nat \<Rightarrow> string" where
  "decimal n = (if n < 10 then [hex_digit n] else decimal (n div 10) @ [hex_digit (n mod 10)])"

declare decimal.simps [simp del]

definition int_repr :: "int \<Rightarrow> string" where
  "int_repr i = (if i < 0 then CHR ''-'' # decimal (nat (- i)) else decimal (nat i))"

definition json_value :: "pyval \<Rightarrow> string" where
  "json_value v = (case v of PStr s \<Rightarrow> encode_basestring_ascii s | PInt i \<Rightarrow> int_repr i)"

definition json_item :: "string \<times> pyval \<Rightarrow> string" where
  "json_item kv = encode_basestring_ascii (fst kv) @ '': '' @ json_value (snd kv)"

fun join_items :: "string list \<Rightarrow> string" where
  "join_items [] = []"
| "join_items [x] = x"
| "join_items (x # y # zs) = x @ '', '' @ join_items (y # zs)"

definition json_dumps :: "(string \<times> pyval) list \<Rightarrow> string" where
  "json_dumps d = ''{'' @ join_items (map json_item d) @ ''}''"

text \<open>
  The reader, for the claim that a payload is valid structured text: it accepts a JSON
  object whose values are strings or integers (white space allowed between the tokens, the
  escapes of JSON in strings, no leading zeros in numbers) and returns its items in order.
  It accepts nothing that is not JSON; objects with other kinds of values are outside of
  it. The recursion over the items is bounded by the length of the text.
\<close>

definition is_ws :: "char \<Rightarrow> bool" where
  "is_ws c = (c = CHR '' '' \<or> c = CHR 0x09 \<or> c = CHR 0x0A \<or> c = CHR 0x0D)"

definition skip_ws :: "string \<Rightarrow> string" where
  "skip_ws s = dropWhile is_ws s"

definition hex_value :: "char \<Rightarrow> nat option" where
  "hex_value c =
     (let n = (of_char c :: nat)
      in if 48 \<le> n \<and> n \<le> 57 then Some (n - 48)
         else if 97 \<le> n \<and> n \<le> 102 then Some (n - 87)
         else if 65 \<le> n \<and> n \<le> 70 then Some (n - 55)
         else None)"

definition simple_escape :: "char \<Rightarrow> char option" where
  "simple_escape e =
     (if e = CHR 0x22 then Some (CHR 0x22)
      else if e = CHR 0x5C then Some (CHR 0x5C)
      else if e = CHR ''/'' then Some (CHR ''/'')
      else if e = CHR ''b'' then Some (CHR 0x08)
      else if e = CHR ''f'' then Some (CHR 0x0C)
      else if e = CHR ''n'' then Some (CHR 0x0A)
      else if e = CHR ''r'' then Some (CHR 0x0D)
      else if e = CHR ''t'' then Some (CHR 0x09)
      else None)"

definition unicode_escape :: "char \<Rightarrow> char \<Rightarrow> char \<Rightarrow> char \<Rightarrow> char option" where
  "unicode_escape a b c d =
     (case (hex_value a, hex_value b, hex_value c, hex_value d) of
        (Some w, Some x, Some y, Some z) \<Rightarrow>
          (if 4096 * w + 256 * x + 16 * y + z < 256 then Some (char_of (16 * y + z)) else None)
      | _ \<Rightarrow> None)"

definition prepend :: "char \<Rightarrow> (string \<times> string) option \<Rightarrow> (string \<times> string) option" where
  "prepend c r = (case r of None \<Rightarrow> None | Some (s, rest) \<Rightarrow> Some (c # s, rest))"

fun scanstring :: "string \<Rightarrow> (string \<times> string) option" where
  "scanstring [] = None"
| "scanstring (c # cs) =
     (if c = CHR 0x22 then Some ([], cs)
      else if c = CHR 0x5C then
        (case cs of
           [] \<Rightarrow> None
         | e # r \<Rightarrow>
             if e = CHR ''u'' then
               (case r of
                  a # b # c' # d # r' \<Rightarrow>
                    (case unicode_escape a b c' d of
                       None \<Rightarrow> None
                     | Some ch \<Rightarrow> prepend ch (scanstring r'))
                | _ \<Rightarrow> None)
             else
               (case simple_escape e of
                  None \<Rightarrow> None
                | Some ch \<Rightarrow> prepend ch (scanstring r)))
      else if (of_char c :: nat) < 0x20 then None
      else prepend c (scanstring cs))"

definition is_digit :: "char \<Rightarrow> bool" where
  "is_digit c = (48 \<le> (of_char c :: nat) \<and> (of_char c :: nat) \<le> 57)"

definition digits_value :: "string \<Rightarrow> nat" where
  "digits_value ds = foldl (\<lambda>a c. 10 * a + (of_char c - 48)) 0 ds"

definition scan_digits :: "string \<Rightarrow> (nat \<times> string) option" where
  "scan_digits s =
     (let ds = takeWhile is_digit s; rest = dropWhile is_digit s
      in if ds = [] then None
         else if hd ds = CHR ''0'' \<and> tl ds \<noteq> [] then None
         else if rest \<noteq> [] \<and> hd rest \<in> set ''.eE'' then None
         else Some (digits_value ds, rest))"

definition scan_int :: "string \<Rightarrow> (int \<times> string) option" where
  "scan_int s =
     (case s of
        [] \<Rightarrow> None
      | c # r \<Rightarrow>
          if c = CHR ''-'' then
            (case scan_digits r of None \<Rightarrow> None | Some (n, rest) \<Rightarrow> Some (- int n, rest))
          else
            (case scan_digits s of None \<Rightarrow> None | Some (n, rest) \<Rightarrow> Some (int n, rest)))"

definition scan_value :: "string \<Rightarrow> (pyval \<times> string) option" where
  "scan_value s =
     (case s of
        [] \<Rightarrow> None
      | c # r \<Rightarrow>
          if c = CHR 0x22 then
            (case scanstring r of None \<Rightarrow> None | Some (t, rest) \<Rightarrow> Some (PStr t, rest))
          else
            (case scan_int s of None \<Rightarrow> None | Some (i, rest) \<Rightarrow> Some (PInt i, rest)))"

fun scan_items :: "nat \<Rightarrow> string \<Rightarrow> (string \<times> pyval) list option" where
  "scan_items 0 s = None"
| "scan_items (Suc n) s =
     (case s of
        [] \<Rightarrow> None
      | q # r \<Rightarrow>
          if q \<noteq> CHR 0x22 then None
          else
            (case scanstring r of
               None \<Rightarrow> None
             | Some (k, r1) \<Rightarrow>
                 (case skip_ws r1 of
                    [] \<Rightarrow> None
                  | c1 # r2 \<Rightarrow>
                      if c1 \<noteq> CHR '':'' then None
                      else
                        (case scan_value (skip_ws r2) of
                           None \<Rightarrow> None
                         | Some (v, r3) \<Rightarrow>
                             (case skip_ws r3 of
                                [] \<Rightarrow> None
                              | c3 # r4 \<Rightarrow>
                                  if c3 = CHR '','' then
                                    (case scan_items n (skip_ws r4) of
                                       None \<Rightarrow> None
                                     | Some kvs \<Rightarrow> Some ((k, v) # kvs))
                                  else if c3 = CHR ''}'' then
                                    (if skip_ws r4 = [] then Some [(k, v)] else None)
                                  else None)))))"

definition json_loads :: "string \<Rightarrow> (string \<times> pyval) list option" where
  "json_loads s =
     (case skip_ws s of
        [] \<Rightarrow> None
      | c # r \<Rightarrow>
          if c \<noteq> CHR ''{'' then None
          else
            (case skip_ws r of
               [] \<Rightarrow> None
             | c2 # r2 \<Rightarrow>
                 if c2 = CHR ''}'' then (if skip_ws r2 = [] then Some [] else None)
                 else scan_items (length s) (skip_ws r)))"


subsection \<open>The service: \<open>run_service\<close>\<close>

text \<open>
  \<^verbatim>\<open>
  def run_service():
      if stop_event.is_set():
          stop_event.clear()
      logging.info("Starting reacher.REACHER broadcast service...")
      unique_key = str(uuid.uuid4())
      local_ip = socket.gethostbyname(socket.gethostname())
      logging.info(f"Generated unique key: {unique_key}")
      try:
          server = socket.socket(socket.AF_INET, socket.SOCK_DGRAM)
          server.setsockopt(socket.SOL_SOCKET, socket.SO_BROADCAST, 1)
          server.settimeout(0.2)
          server.bind(('', 0))
          while not stop_event.is_set():
              try:
                  payload = {"message": "REACHER_DEVICE_DISCOVERY", "key": unique_key,
                             "name": "REACHER_Device", "address": local_ip, "port": HTTP_PORT}
                  message = json.dumps(payload).encode('utf-8')
                  server.sendto(message, ('<broadcast>', UDP_PORT))
                  logging.info(f"Broadcast sent over UDP port {UDP_PORT}: {payload}")
                  time.sleep(5)
              except Exception as e:
                  logging.warning(f"Broadcast error: {e}")
      except Exception as e:
          logging.error(f"Broadcast service failed: {e}")
      finally:
          server.close()
          logging.info("Broadcast service stopped.")
  \<close>
  What the function reads from outside is an \<open>environment\<close>: the random bytes of
  \<open>uuid4\<close>, what \<open>gethostbyname\<close> returns or raises, whether the socket calls raise,
  what each \<open>sendto\<close> of the loop does, and when another thread sets the stop flag.
  \<open>config\<close> holds the two ports the module reads at import. The state is a clock, the
  flag as the service finds it, the local variable \<open>server\<close>, the packets sent and the
  log (level and message; the formatted arguments are left out).

  Time is logical: \<open>time.sleep(5)\<close> moves the clock by 5 and no other statement takes
  time. \<open>stop_event\<close> is one flag of the module, shared by every thread: \<open>end_service\<close>
  and \<open>shutdown_service\<close> set it, and the first two lines of every call of
  \<open>run_service\<close> clear it. \<open>flag_events\<close> lists what the other threads do to the flag
  while this service runs, each event with its time, in the order they happen. An event
  from before the start of the service is undone by the service's own first two lines.
  When an event and a test of the flag fall on the same instant, \<open>events_before_check\<close>
  says which comes first.

  The outcomes of \<open>sendto\<close> are a finite list: the loop of the model makes at most that
  many iterations, and a loop that has used them up with the flag still clear is still
  running (\<open>False\<close> in the first component, \<open>Still_running\<close> for the service).
\<close>

datatype exn = OSError | Gaierror | UnboundLocalError

datatype server_var = Unbound | Socket_open | Socket_closed

datatype send_outcome = Send_ok | Send_raises

datatype flag_op = Flag_set | Flag_clear

datatype level = INFO | WARNING | ERROR

record packet =
  sent_at :: nat
  datagram :: string
  dest_port :: int

record config =
  UDP_PORT :: int
  HTTP_PORT :: int

record environment =
  urandom16 :: "128 word"
  gethostbyname :: "exn + string"
  socket_raises :: bool
  setsockopt_raises :: bool
  bind_raises :: bool
  sendto_outcomes :: "send_outcome list"
  flag_events :: "(nat \<times> flag_op) list"
  events_before_check :: bool

record service =
  clock :: nat
  stop_flag :: bool
  server :: server_var
  sent :: "packet list"
  logged :: "(level \<times> string) list"

definition service_at :: "nat \<Rightarrow> bool \<Rightarrow> service" where
  "service_at t f = \<lparr>clock = t, stop_flag = f, server = Unbound, sent = [], logged = []\<rparr>"

definition log_line :: "level \<Rightarrow> string \<Rightarrow> service \<Rightarrow> service" where
  "log_line l m s = s\<lparr>logged := logged s @ [(l, m)]\<rparr>"

definition sendto :: "string \<Rightarrow> int \<Rightarrow> service \<Rightarrow> service" where
  "sendto m port s = s\<lparr>sent := sent s @ [\<lparr>sent_at = clock s, datagram = m, dest_port = port\<rparr>]\<rparr>"

definition sleep :: "nat \<Rightarrow> service \<Rightarrow> service" where
  "sleep d s = s\<lparr>clock := clock s + d\<rparr>"

text \<open>
  The events a test of the flag at time \<open>c\<close> comes after, and \<open>stop_event.is_set()\<close>
  read at the time of the clock: what the last of these events left, or the flag of the
  service's own state when there is none.
\<close>

definition seen_events :: "environment \<Rightarrow> nat \<Rightarrow> nat \<Rightarrow> (nat \<times> flag_op) list" where
  "seen_events env t0 c =
     filter (\<lambda>e. t0 \<le> fst e \<and> (if events_before_check env then fst e \<le> c else fst e < c))
       (flag_events env)"

definition apply_flag_op :: "bool \<Rightarrow> nat \<times> flag_op \<Rightarrow> bool" where
  "apply_flag_op b e = (snd e = Flag_set)"

definition is_set :: "environment \<Rightarrow> nat \<Rightarrow> service \<Rightarrow> bool" where
  "is_set env t0 s = foldl apply_flag_op (stop_flag s) (seen_events env t0 (clock s))"

definition discovery_payload :: "config \<Rightarrow> string \<Rightarrow> string \<Rightarrow> (string \<times> pyval) list" where
  "discovery_payload cfg unique_key local_ip =
     [(''message'', PStr ''REACHER_DEVICE_DISCOVERY''),
      (''key'', PStr unique_key),
      (''name'', PStr ''REACHER_Device''),
      (''address'', PStr local_ip),
      (''port'', PInt (HTTP_PORT cfg))]"

fun broadcast_loop ::
  "config \<Rightarrow> environment \<Rightarrow> nat \<Rightarrow> string \<Rightarrow> string \<Rightarrow> send_outcome list \<Rightarrow> service
     \<Rightarrow> bool \<times> service" where
  "broadcast_loop cfg env t0 unique_key local_ip [] s = (is_set env t0 s, s)"
| "broadcast_loop cfg env t0 unique_key local_ip (r # rs) s =
     (if is_set env t0 s then (True, s)
      else
        (case r of
           Send_ok \<Rightarrow>
             (let message = json_dumps (discovery_payload cfg unique_key local_ip);
                  s1 = sendto message (UDP_PORT cfg) s;
                  s2 = log_line INFO ''Broadcast sent over UDP port'' s1
              in broadcast_loop cfg env t0 unique_key local_ip rs (sleep 5 s2))
         | Send_raises \<Rightarrow>
             broadcast_loop cfg env t0 unique_key local_ip rs
               (log_line WARNING ''Broadcast error'' s)))"

text \<open>
  The outer \<open>try\<close> block up to the end of the loop. \<open>settimeout(0.2)\<close> sets a timeout for
  receiving and cannot fail; the model has nothing for it.
\<close>

datatype try_result = Try_done | Try_raised exn | Try_running

definition try_block ::
  "config \<Rightarrow> environment \<Rightarrow> nat \<Rightarrow> string \<Rightarrow> string \<Rightarrow> service \<Rightarrow> try_result \<times> service" where
  "try_block cfg env t0 unique_key local_ip s =
     (if socket_raises env then (Try_raised OSError, s)
      else
        (let s1 = s\<lparr>server := Socket_open\<rparr>
         in if setsockopt_raises env then (Try_raised OSError, s1)
            else if bind_raises env then (Try_raised OSError, s1)
            else
              (case broadcast_loop cfg env t0 unique_key local_ip (sendto_outcomes env) s1 of
                 (True, s2) \<Rightarrow> (Try_done, s2)
               | (False, s2) \<Rightarrow> (Try_running, s2))))"

datatype outcome = Returned | Raised exn | Still_running

text \<open>
  The \<open>finally\<close> block: \<open>server.close()\<close> reads the local variable \<open>server\<close>, which is
  unbound when \<open>socket.socket\<close> raised.
\<close>

definition finally_block :: "service \<Rightarrow> outcome \<times> service" where
  "finally_block s =
     (case server s of
        Unbound \<Rightarrow> (Raised UnboundLocalError, s)
      | Socket_open \<Rightarrow>
          (Returned, log_line INFO ''Broadcast service stopped.'' (s\<lparr>server := Socket_closed\<rparr>))
      | Socket_closed \<Rightarrow>
          (Returned, log_line INFO ''Broadcast service stopped.'' (s\<lparr>server := Socket_closed\<rparr>)))"

definition run_service :: "config \<Rightarrow> environment \<Rightarrow> service \<Rightarrow> outcome \<times> service" where
  "run_service cfg env s0 =
     (let t0 = clock s0;
          s1 = (if stop_flag s0 then s0\<lparr>stop_flag := False\<rparr> else s0);
          s2 = log_line INFO ''Starting reacher.REACHER broadcast service...'' s1;
          unique_key = uuid_str (uuid4 (urandom16 env))
      in case gethostbyname env of
           Inl e \<Rightarrow> (Raised e, s2)
         | Inr local_ip \<Rightarrow>
             (let s3 = log_line INFO (''Generated unique key: '' @ unique_key) s2
              in case try_block cfg env t0 unique_key local_ip s3 of
                   (Try_running, s4) \<Rightarrow> (Still_running, s4)
                 | (Try_done, s4) \<Rightarrow> finally_block s4
                 | (Try_raised e, s4) \<Rightarrow>
                     finally_block (log_line ERROR ''Broadcast service failed'' s4)))"

text \<open>An environment in which every call succeeds and nobody asks the service to stop.\<close>

definition quiet_environment :: environment where
  "quiet_environment =
     \<lparr>urandom16 = 0x0123456789abcdef0123456789abcdef, gethostbyname = Inr ''192.168.1.20'',
      socket_raises = False, setsockopt_raises = False, bind_raises = False,
      sendto_outcomes = [], flag_events = [], events_before_check = False\<rparr>"

definition default_config :: config where
  "default_config = \<lparr>UDP_PORT = 7899, HTTP_PORT = 6229\<rparr>"

text \<open>
  The same environment with sends that succeed, one that fails, and a stop request at
  time 5, made just after the loop has tested the flag at that time.
\<close>

definition stopping_environment :: environment where
  "stopping_environment =
     quiet_environment\<lparr>sendto_outcomes := [Send_ok, Send_raises, Send_ok, Send_ok, Send_ok],
                        flag_events := [(5, Flag_set)]\<rparr>"

text \<open>
  An environment in which the flag is set at time 1 and cleared at time 2, as the first
  lines of a second call of \<open>run_service\<close> do.
\<close>

definition restarting_environment :: environment where
  "restarting_environment =
     quiet_environment\<lparr>sendto_outcomes := [Send_ok, Send_ok, Send_ok],
                        flag_events := [(1, Flag_set), (2, Flag_clear)]\<rparr>"

text \<open>A later start of the service, which draws other random bytes.\<close>

definition second_start_environment :: environment where
  "second_start_environment =
     stopping_environment\<lparr>urandom16 := 0xfedcba9876543210fedcba9876543210\<rparr>"

text \<open>The key field of a datagram, as a receiver reads it.\<close>

definition datagram_key :: "packet \<Rightarrow> pyval option" where
  "datagram_key p =
     (case json_loads (datagram p) of None \<Rightarrow> None | Some d \<Rightarrow> map_of d ''key'')"

definition count_ok :: "send_outcome list \<Rightarrow> nat" where
  "count_ok rs = length (filter (\<lambda>r. r = Send_ok) rs)"

text \<open>The state in which \<open>run_service\<close> enters its loop, when the socket could be set up.\<close>

definition loop_entry :: "nat \<Rightarrow> string \<Rightarrow> service" where
  "loop_entry t0 unique_key =
     \<lparr>clock = t0, stop_flag = False, server = Socket_open, sent = [],
      logged = [(INFO, ''Starting reacher.REACHER broadcast service...''),
                (INFO, ''Generated unique key: '' @ unique_key)]\<rparr>"

section \<open>Session registry: results\<close>

lemmas registry_defs = createSession_def type_name_def make_new_local_instance_tab_def
  make_new_network_instance_tab_def set_placeholder_def set_value_def append_tab_def
  set_active_def tab_names_def

text \<open>
  What the duplicate test of the callbacks does reject: an input that is equal to the
  name of a tab, as \<open>session_tabs._names\<close> holds it ("Welcome", "LOCAL - A", ...).
\<close>

lemma createSession_label_present:
  assumes "n \<noteq> []" and "n \<in> set (tab_names st)"
  shows "createSession k n st =
     st\<lparr>box_value := [], box_placeholder := duplicate_name_message,
        writes := writes st @ [Set_value [], Set_placeholder duplicate_name_message]\<rparr>"
  using assms by (cases k) (simp_all add: registry_defs)

text \<open>
  Claim C1: for every sequence of createSession calls from the initial registry, no two
  entries of the registry share a name. The code breaks it: the duplicate test compares
  the typed name with the tab names, and the tabs are named "LOCAL - " or "NETWORK - "
  followed by the typed name, so the test never finds a session created before. Creating
  the local session "A" twice leaves two tabs named "LOCAL - A".
\<close>

theorem repeated_name_repeats_label:
  "tab_names (create_sessions [(Local, ''A''), (Local, ''A'')] initial_ui) =
     [''Welcome'', ''LOCAL - A'', ''LOCAL - A''] \<and>
   \<not> distinct (tab_names (create_sessions [(Local, ''A''), (Local, ''A'')] initial_ui))"
  by (simp add: registry_defs initial_ui_def)

text \<open>
  Claim C2: a createSession call with a name for which a session was created before
  leaves the registry's size and order unchanged, clears the input and shows the
  duplicate-name message. The code breaks it, by the defect of C1: after the local
  session "A", the network session "A" is accepted, the registry has three entries, and
  the placeholder is emptied instead of set to the duplicate-name message.
\<close>

theorem used_name_accepted_again:
  "tab_names (createSession Local ''A'' initial_ui) = [''Welcome'', ''LOCAL - A''] \<and>
   tab_names (createSession Network ''A'' (createSession Local ''A'' initial_ui)) =
     [''Welcome'', ''LOCAL - A'', ''NETWORK - A''] \<and>
   length (session_tabs (createSession Network ''A'' (createSession Local ''A'' initial_ui))) = 3 \<and>
   box_placeholder (createSession Network ''A'' (createSession Local ''A'' initial_ui)) = [] \<and>
   box_placeholder (createSession Network ''A'' (createSession Local ''A'' initial_ui))
     \<noteq> duplicate_name_message"
  by (simp add: registry_defs initial_ui_def duplicate_name_message_def)

text \<open>
  What the last branch of the callbacks does, for an input that is not empty and not the
  name of a tab: the four assignments of the source, in its order. One entry is appended
  after the existing ones, the focus moves to it, the input and the prompt are cleared.
\<close>

lemma createSession_new_label:
  assumes "n \<noteq> []" and "n \<notin> set (tab_names st)"
  shows "session_tabs (createSession k n st) = session_tabs st @ [(tab_label k n, tab_object k)] \<and>
         length (session_tabs (createSession k n st)) = Suc (length (session_tabs st)) \<and>
         active (createSession k n st) = int (length (session_tabs st)) \<and>
         session_tabs (createSession k n st) ! nat (active (createSession k n st)) =
           (tab_label k n, tab_object k) \<and>
         box_value (createSession k n st) = [] \<and>
         box_placeholder (createSession k n st) = [] \<and>
         writes (createSession k n st) =
           writes st @ [Append_tab (tab_label k n) (tab_object k),
                        Set_active (int (length (session_tabs st))), Set_value [], Set_placeholder []]"
  using assms
  by (cases k) (simp_all add: registry_defs tab_label_def tab_object_def Let_def)

text \<open>
  Claim C6: for every non-empty name not used before, createSession appends exactly one
  entry, moves the focus to it and clears the input and the prompt. The code breaks it,
  by the defect of C1: the duplicate test looks for the typed name among the tab labels,
  so a name that was never used but spells the label of an existing tab is refused. After
  the local session "A", the only session created, the name "LOCAL - A" is refused by
  both callbacks: the registry keeps its two entries and the duplicate-name message is
  shown.
\<close>

theorem unused_name_rejected:
  "tab_names (createSession Local ''A'' initial_ui) = [''Welcome'', ''LOCAL - A''] \<and>
   ''LOCAL - A'' \<noteq> ''A'' \<and> ''LOCAL - A'' \<noteq> ''Welcome'' \<and> ''LOCAL - A'' \<noteq> [] \<and>
   session_tabs (createSession Local ''LOCAL - A'' (createSession Local ''A'' initial_ui)) =
     session_tabs (createSession Local ''A'' initial_ui) \<and>
   box_placeholder (createSession Local ''LOCAL - A'' (createSession Local ''A'' initial_ui)) =
     duplicate_name_message \<and>
   session_tabs (createSession Network ''LOCAL - A'' (createSession Local ''A'' initial_ui)) =
     session_tabs (createSession Local ''A'' initial_ui) \<and>
   box_placeholder (createSession Network ''LOCAL - A'' (createSession Local ''A'' initial_ui)) =
     duplicate_name_message"
  by (simp add: registry_defs initial_ui_def)

text \<open>
  Claim C9: for the empty name, a createSession call of either kind leaves the registry
  (and the focus) unchanged and shows the prompt that asks for a name. The only
  assignment the callback makes is the one to the placeholder: the input is not assigned.
  The test comes before the duplicate test: the statement holds in every state, also one
  in which a tab has the empty name, and the message is never the duplicate-name one.
\<close>

theorem createSession_empty_name:
  "session_tabs (createSession k [] st) = session_tabs st \<and>
   active (createSession k [] st) = active st \<and>
   box_value (createSession k [] st) = [] \<and>
   box_placeholder (createSession k [] st) = empty_name_prompt \<and>
   box_placeholder (createSession k [] st) \<noteq> duplicate_name_message \<and>
   writes (createSession k [] st) = writes st @ [Set_placeholder empty_name_prompt]"
  by (cases k) (simp_all add: registry_defs empty_name_prompt_def duplicate_name_message_def)

section \<open>Process supervisor: results\<close>

lemmas supervisor_defs = on_closing_def root_destroy_def process_terminate_def process_join_def
  sys_exit_def

text \<open>
  Claim C7: on a window-close request while the server process runs, a cancelled dialog
  changes nothing (the process runs, the window is open, no call is made). A confirmed
  dialog destroys the window, terminates the process, joins it without a timeout and
  exits with status 0, in this order, and the process is no longer alive at the exit. The
  join has no timeout: with a process that never exits the handler does not return.
\<close>

theorem on_closing_running_server:
  assumes "panel_alive s"
  shows "on_closing False s = Some s \<and>
         (exits_on_terminate s \<longrightarrow>
            on_closing True s =
              Some (s\<lparr>window_open := False, panel_alive := False, terminate_sent := True,
                      exit_status := Some 0,
                      calls := calls s @ [Root_destroy, Process_terminate, Process_join None,
                                          Sys_exit 0]\<rparr>)) \<and>
         (\<not> exits_on_terminate s \<longrightarrow> on_closing True s = None)"
  using assms by (simp add: supervisor_defs)

theorem on_closing_running_server_witness:
  "panel_alive (server_running True) \<and> panel_alive (server_running False) \<and>
   on_closing False (server_running True) = Some (server_running True) \<and>
   on_closing True (server_running True) =
     Some \<lparr>window_open = False, panel_alive = False, terminate_sent = True,
           exits_on_terminate = True, exit_status = Some 0,
           calls = [Root_destroy, Process_terminate, Process_join None, Sys_exit 0]\<rparr> \<and>
   on_closing True (server_running False) = None"
proof -
  have h1: "panel_alive (server_running True)" by (simp add: server_running_def)
  have h2: "panel_alive (server_running False)" by (simp add: server_running_def)
  show ?thesis
    using on_closing_running_server [OF h1] on_closing_running_server [OF h2] h1 h2
    by (simp add: server_running_def)
qed

text \<open>
  Claim C10, as stated, has a confirmed close reach exit status 0 whether the server
  process was alive or not. It does not when the process is alive and never exits: the
  handler stays in the join, which has no timeout, and no exit status is reached.
\<close>

theorem confirmed_close_blocks:
  "panel_alive (server_running False) \<and> on_closing True (server_running False) = None \<and>
   \<not> (\<exists>s'. on_closing True (server_running False) = Some s' \<and> exit_status s' = Some 0)"
  by (simp add: supervisor_defs server_running_def)

text \<open>
  Claim C10, amended: when the server process is no longer alive at a confirmed close, the
  handler makes neither the terminate nor the join call and exits with status 0. When
  the process is alive, a confirmed close reaches exit status 0 if the terminated process
  exits; if it never exits, the handler does not return.
\<close>

theorem on_closing_dead_server:
  "(\<not> panel_alive s \<longrightarrow>
      on_closing True s =
        Some (s\<lparr>window_open := False, exit_status := Some 0,
                calls := calls s @ [Root_destroy, Sys_exit 0]\<rparr>)) \<and>
   (panel_alive s \<longrightarrow> exits_on_terminate s \<longrightarrow>
      (\<exists>s'. on_closing True s = Some s' \<and> exit_status s' = Some 0)) \<and>
   (panel_alive s \<longrightarrow> \<not> exits_on_terminate s \<longrightarrow> on_closing True s = None)"
  by (auto simp add: supervisor_defs Let_def split: if_splits option.splits)

theorem on_closing_dead_server_witness:
  "\<not> panel_alive ((server_running True)\<lparr>panel_alive := False\<rparr>) \<and>
   on_closing True ((server_running True)\<lparr>panel_alive := False\<rparr>) =
     Some \<lparr>window_open = False, panel_alive = False, terminate_sent = False,
           exits_on_terminate = True, exit_status = Some 0,
           calls = [Root_destroy, Sys_exit 0]\<rparr> \<and>
   (\<exists>s'. on_closing True (server_running True) = Some s' \<and> exit_status s' = Some 0) \<and>
   on_closing True ((server_running False)\<lparr>calls := [Root_destroy]\<rparr>) = None"
  using on_closing_dead_server [of "(server_running True)\<lparr>panel_alive := False\<rparr>"]
    on_closing_dead_server [of "server_running True"]
    on_closing_dead_server [of "(server_running False)\<lparr>calls := [Root_destroy]\<rparr>"]
  by (simp add: server_running_def)

section \<open>Shutdown coordinator: results\<close>

text \<open>
  Claim C8: on SIGINT and on SIGTERM the handler logs, sets the stop flag and exits the
  hosting process with status 0, in this order. It makes no join call and leaves the
  broadcast thread as it is: the process exits while the loop may still be running.
\<close>

theorem termination_signal_stops_and_exits:
  "(sig = SIGINT \<or> sig = SIGTERM) \<longrightarrow>
     receive_signal sig h =
       h\<lparr>stop_event := True, host_exit := Some 0,
         host_calls := host_calls h @
           [Log_info ''Shutting down services...'', Stop_event_set, Host_exit 0]\<rparr> \<and>
     broadcast_in_loop (receive_signal sig h) = broadcast_in_loop h \<and>
     Thread_join \<notin> set (drop (length (host_calls h)) (host_calls (receive_signal sig h)))"
  by (auto simp add: receive_signal_def handler_of_def shutdown_service_def Let_def)

theorem termination_signal_stops_and_exits_witness:
  "receive_signal SIGINT host_broadcasting =
     \<lparr>stop_event = True, broadcast_in_loop = True, host_exit = Some 0,
      host_calls = [Log_info ''Shutting down services...'', Stop_event_set, Host_exit 0]\<rparr> \<and>
   receive_signal SIGTERM host_broadcasting =
     \<lparr>stop_event = True, broadcast_in_loop = True, host_exit = Some 0,
      host_calls = [Log_info ''Shutting down services...'', Stop_event_set, Host_exit 0]\<rparr>"
  using termination_signal_stops_and_exits [of SIGINT host_broadcasting]
    termination_signal_stops_and_exits [of SIGTERM host_broadcasting]
  by (simp add: host_broadcasting_def)

section \<open>Broadcast service: results\<close>

subsection \<open>The key is a version-4 UUID\<close>

lemma upt32: "[0..<32] = [0,1,2,3,4,5,6,7,8,9,10,11,12,13,14,15,16,17,18,19,20,21,22,23,24,25,26,27,28,29,30,31]"
  by (simp add: upt_rec)

lemma bit_15_iff: "bit (15 :: 128 word) n \<longleftrightarrow> n < 4"
proof -
  have eq: "(15 :: 128 word) = mask 4" by (simp add: mask_eq_exp_minus_1)
  show ?thesis unfolding eq bit_mask_iff by auto
qed

lemma bit_15_int_iff: "bit (15 :: int) n \<longleftrightarrow> n < 4"
proof -
  have eq: "(15 :: int) = mask 4" by (simp add: mask_eq_exp_minus_1)
  show ?thesis unfolding eq bit_mask_iff by auto
qed

lemma nibble_cases:
  fixes x y :: "128 word"
  assumes "bit x 0 = bit y 0" "bit x 1 = bit y 1" "bit x 2 = bit y 2" "bit x 3 = bit y 3"
  shows "x AND 0xF = y AND 0xF"
proof (rule bit_word_eqI)
  fix n assume "n < LENGTH(128)"
  consider "n = 0" | "n = 1" | "n = 2" | "n = 3" | "4 \<le> n" by linarith
  then show "bit (x AND 0xF) n = bit (y AND 0xF) n"
    using assms by cases (simp_all add: bit_and_iff bit_15_iff bit_15_int_iff)
qed

lemma nibble_value:
  fixes x :: "128 word"
  shows "x AND 0xF =
    (if bit x 3 then 8 else 0) + (if bit x 2 then 4 else 0) +
    (if bit x 1 then 2 else 0) + (if bit x 0 then 1 else 0)" (is "_ = ?y")
proof -
  have "x AND 0xF = ?y AND 0xF"
    by (rule nibble_cases) simp_all
  also have "?y AND 0xF = ?y" by simp
  finally show ?thesis .
qed

lemma hex_nibble_is_hex: "is_hex_char (hex_nibble w k)"
  unfolding hex_nibble_def
  by (subst nibble_value) (simp add: is_hex_char_def hex_digit_def)

lemma hex_nibble_version: "hex_nibble (uuid4 r) 76 = CHR ''4''"
  unfolding hex_nibble_def
  by (subst nibble_value) (simp add: uuid4_def Let_def bit_simps hex_digit_def)

lemma hex_nibble_variant: "hex_nibble (uuid4 r) 60 \<in> set ''89ab''"
  unfolding hex_nibble_def
  by (subst nibble_value) (simp add: uuid4_def Let_def bit_simps hex_digit_def)

lemma upt36: "[0..<36] = [0,1,2,3,4,5,6,7,8,9,10,11,12,13,14,15,16,17,18,19,20,21,22,23,24,25,26,27,28,29,30,31,32,33,34,35]"
  by (simp add: upt_rec)

lemma uuid_str_explicit:
  "uuid_str w =
     [hex_nibble w 124, hex_nibble w 120, hex_nibble w 116, hex_nibble w 112,
      hex_nibble w 108, hex_nibble w 104, hex_nibble w 100, hex_nibble w 96, CHR ''-'',
      hex_nibble w 92, hex_nibble w 88, hex_nibble w 84, hex_nibble w 80, CHR ''-'',
      hex_nibble w 76, hex_nibble w 72, hex_nibble w 68, hex_nibble w 64, CHR ''-'',
      hex_nibble w 60, hex_nibble w 56, hex_nibble w 52, hex_nibble w 48, CHR ''-'',
      hex_nibble w 44, hex_nibble w 40, hex_nibble w 36, hex_nibble w 32,
      hex_nibble w 28, hex_nibble w 24, hex_nibble w 20, hex_nibble w 16,
      hex_nibble w 12, hex_nibble w 8, hex_nibble w 4, hex_nibble w 0]"
  by (simp add: uuid_str_def hex32_def upt32)

lemma uuid4_text: "is_uuid4_text (uuid_str (uuid4 r))"
proof -
  have h4: "is_hex_char CHR ''4''" by (simp add: is_hex_char_def)
  show ?thesis
    using hex_nibble_variant [of r] h4
    by (simp add: is_uuid4_text_def uuid_str_explicit upt36 hex_nibble_is_hex hex_nibble_version)
qed

text \<open>The text of the key determines the random bits of the draw, and the other way round.\<close>

lemma hex32_explicit:
  "hex32 w =
     [hex_nibble w 124, hex_nibble w 120, hex_nibble w 116, hex_nibble w 112,
      hex_nibble w 108, hex_nibble w 104, hex_nibble w 100, hex_nibble w 96,
      hex_nibble w 92, hex_nibble w 88, hex_nibble w 84, hex_nibble w 80,
      hex_nibble w 76, hex_nibble w 72, hex_nibble w 68, hex_nibble w 64,
      hex_nibble w 60, hex_nibble w 56, hex_nibble w 52, hex_nibble w 48,
      hex_nibble w 44, hex_nibble w 40, hex_nibble w 36, hex_nibble w 32,
      hex_nibble w 28, hex_nibble w 24, hex_nibble w 20, hex_nibble w 16,
      hex_nibble w 12, hex_nibble w 8, hex_nibble w 4, hex_nibble w 0]"
  by (simp add: hex32_def upt32)

lemma uuid_str_hex32: "uuid_str w1 = uuid_str w2 \<Longrightarrow> hex32 w1 = hex32 w2"
  by (simp add: uuid_str_explicit hex32_explicit)

lemma hex_digit_inj_all:
  "\<forall>a \<in> set [0..<16]. \<forall>b \<in> set [0..<16]. hex_digit a = hex_digit b \<longrightarrow> a = b"
  by code_simp

lemma hex_digit_inj: "a < 16 \<Longrightarrow> b < 16 \<Longrightarrow> hex_digit a = hex_digit b \<Longrightarrow> a = b"
  using hex_digit_inj_all by simp

lemma nibble_less: "unat (x AND (0xF :: 128 word)) < 16"
  by (subst nibble_value) simp

lemma hex_nibble_inj:
  assumes "hex_nibble w1 k = hex_nibble w2 k"
  shows "drop_bit k w1 AND 0xF = drop_bit k w2 AND 0xF"
proof -
  have "unat (drop_bit k w1 AND 0xF) = unat (drop_bit k w2 AND 0xF)"
    using assms nibble_less hex_digit_inj unfolding hex_nibble_def by blast
  then show ?thesis by (simp add: word_unat_eq_iff)
qed

lemma hex32_inj:
  assumes "hex32 w1 = hex32 w2"
  shows "w1 = w2"
proof (rule bit_word_eqI)
  fix n assume "n < LENGTH(128)"
  then have n: "n < 128" by simp
  define q where "q = n div 4"
  define i where "i = 31 - q"
  have q: "q < 32" using n by (simp add: q_def)
  have i: "i \<in> set [0..<32]" by (simp add: i_def)
  have k: "4 * (31 - i) = 4 * q" using q by (simp add: i_def)
  from assms have "\<forall>j \<in> set [0..<32]. hex_nibble w1 (4 * (31 - j)) = hex_nibble w2 (4 * (31 - j))"
    unfolding hex32_def by (simp only: map_eq_conv)
  with i k have "hex_nibble w1 (4 * q) = hex_nibble w2 (4 * q)" by metis
  then have eq: "drop_bit (4 * q) w1 AND 0xF = drop_bit (4 * q) w2 AND 0xF"
    by (rule hex_nibble_inj)
  have r: "n mod 4 < 4" by simp
  have split: "4 * q + n mod 4 = n" by (simp add: q_def)
  have "bit (drop_bit (4 * q) w1 AND 0xF) (n mod 4) = bit (drop_bit (4 * q) w2 AND 0xF) (n mod 4)"
    using eq by simp
  then show "bit w1 n = bit w2 n"
    using r split by (simp add: bit_and_iff bit_drop_bit_eq bit_15_iff bit_15_int_iff)
qed

lemma uuid_str_inj: "uuid_str w1 = uuid_str w2 \<longleftrightarrow> w1 = w2"
  using hex32_inj uuid_str_hex32 by blast

lemma mask_algebra:
  fixes r a b c d :: "128 word"
  shows "((r AND a) OR b) AND c OR d = (r AND a AND c) OR ((b AND c) OR d)"
  by (rule bit_word_eqI) (auto simp add: bit_and_iff bit_or_iff)

lemma uuid4_split:
  "uuid4 r = random_bits r OR (push_bit 48 0x8000 OR push_bit 76 4)"
proof -
  have c: "push_bit 48 (0x8000 :: 128 word) AND NOT (push_bit 64 0xf000) = push_bit 48 0x8000"
    by simp
  show ?thesis
    unfolding uuid4_def Let_def random_bits_def mask_algebra c ..
qed

lemma random_bits_of_uuid4:
  "random_bits (uuid4 r) = random_bits r"
proof -
  have z: "random_bits (push_bit 48 0x8000 OR push_bit 76 4) = 0"
    by (simp add: random_bits_def)
  have i: "random_bits (random_bits r) = random_bits r"
    unfolding random_bits_def by (rule bit_word_eqI) (auto simp add: bit_and_iff)
  have d: "random_bits (x OR y) = random_bits x OR random_bits y" for x y
    unfolding random_bits_def by (rule bit_word_eqI) (auto simp add: bit_and_iff bit_or_iff)
  have "random_bits (uuid4 r) =
          random_bits (random_bits r) OR random_bits (push_bit 48 0x8000 OR push_bit 76 4)"
    unfolding uuid4_split d ..
  also have "\<dots> = random_bits r" unfolding z i by simp
  finally show ?thesis .
qed

lemma uuid4_eq_iff: "uuid4 r1 = uuid4 r2 \<longleftrightarrow> random_bits r1 = random_bits r2"
proof
  assume "uuid4 r1 = uuid4 r2"
  then have "random_bits (uuid4 r1) = random_bits (uuid4 r2)" by simp
  then show "random_bits r1 = random_bits r2" by (simp add: random_bits_of_uuid4)
next
  assume "random_bits r1 = random_bits r2"
  then show "uuid4 r1 = uuid4 r2" by (simp add: uuid4_split)
qed

lemma key_eq_iff:
  "uuid_str (uuid4 r1) = uuid_str (uuid4 r2) \<longleftrightarrow> random_bits r1 = random_bits r2"
  by (simp add: uuid_str_inj uuid4_eq_iff)

subsection \<open>The reader reads what \<open>json.dumps\<close> writes\<close>

lemma hex_value_hex_digit_all: "\<forall>k \<in> set [0..<16]. hex_value (hex_digit k) = Some k"
  by code_simp

lemma hex_value_hex_digit: "k < 16 \<Longrightarrow> hex_value (hex_digit k) = Some k"
  using hex_value_hex_digit_all by simp

lemma unicode_escape_hex:
  "unicode_escape (CHR ''0'') (CHR ''0'') (hex_digit (of_char c div 16)) (hex_digit (of_char c mod 16))
     = Some c"
proof -
  have lt: "(of_char c :: nat) < 256" by simp
  have d: "(of_char c :: nat) div 16 < 16" by (rule less_mult_imp_div_less) simp
  have z: "hex_value (CHR ''0'') = Some 0" by (simp add: hex_value_def)
  have "char_of (16 * ((of_char c :: nat) div 16) + of_char c mod 16) = c" by simp
  then show ?thesis
    using lt by (simp add: unicode_escape_def z hex_value_hex_digit d)
qed

lemma scanstring_escape_char:
  "scanstring (json_escape_char c @ x) = prepend c (scanstring x)"
  by (simp add: json_escape_char_def simple_escape_def unicode_escape_hex)

lemma scanstring_escaped:
  "scanstring (concat (map json_escape_char s) @ CHR 0x22 # rest) = Some (s, rest)"
  by (induction s) (simp_all add: scanstring_escape_char prepend_def)

lemma scan_value_string:
  "scan_value (encode_basestring_ascii s @ rest) = Some (PStr s, rest)"
  by (simp add: scan_value_def encode_basestring_ascii_def scanstring_escaped)

lemma digit_facts_all:
  "\<forall>k \<in> set [0..<10]. is_digit (hex_digit k) \<and> (of_char (hex_digit k) :: nat) - 48 = k \<and>
     (hex_digit k = CHR ''0'' \<longrightarrow> k = 0)"
  by code_simp

lemma digit_facts:
  assumes "k < 10"
  shows "is_digit (hex_digit k)" and "(of_char (hex_digit k) :: nat) - 48 = k"
    and "hex_digit k = CHR ''0'' \<Longrightarrow> k = 0"
  using digit_facts_all assms by simp_all

lemma decimal_nonempty: "decimal n \<noteq> []"
  by (subst decimal.simps) simp

lemma decimal_digits: "c \<in> set (decimal n) \<Longrightarrow> is_digit c"
proof (induction n arbitrary: c rule: decimal.induct)
  case (1 n)
  show ?case
  proof (cases "n < 10")
    case True
    with "1.prems" show ?thesis by (subst (asm) decimal.simps) (simp add: digit_facts)
  next
    case False
    with "1.prems" have "c \<in> set (decimal (n div 10)) \<or> c = hex_digit (n mod 10)"
      by (subst (asm) decimal.simps) auto
    then show ?thesis using "1.IH" [OF False] by (auto simp add: digit_facts)
  qed
qed

lemma decimal_leading_zero: "hd (decimal n) = CHR ''0'' \<Longrightarrow> n = 0"
proof (induction n rule: decimal.induct)
  case (1 n)
  show ?case
  proof (cases "n < 10")
    case True
    with "1.prems" show ?thesis by (subst (asm) decimal.simps) (simp add: digit_facts)
  next
    case False
    with "1.prems" have "hd (decimal (n div 10)) = CHR ''0''"
      by (subst (asm) decimal.simps) (simp add: decimal_nonempty)
    then have "n div 10 = 0" using "1.IH" [OF False] by simp
    with False show ?thesis by simp
  qed
qed

lemma digits_value_snoc: "digits_value (ds @ [d]) = 10 * digits_value ds + (of_char d - 48)"
  by (simp add: digits_value_def)

lemma digits_value_decimal: "digits_value (decimal n) = n"
proof (induction n rule: decimal.induct)
  case (1 n)
  show ?case
  proof (cases "n < 10")
    case True
    then show ?thesis by (subst decimal.simps) (simp add: digits_value_def digit_facts)
  next
    case False
    then show ?thesis
      using "1.IH" [OF False]
      by (subst decimal.simps) (simp add: digits_value_snoc digit_facts)
  qed
qed

lemma decimal_zero: "decimal 0 = ''0''"
  by (subst decimal.simps) (simp add: hex_digit_def)

lemma scan_digits_decimal:
  assumes "\<not> is_digit c" and "c \<notin> set ''.eE''"
  shows "scan_digits (decimal n @ c # rest) = Some (n, c # rest)"
proof -
  have all: "\<forall>x \<in> set (decimal n). is_digit x" using decimal_digits by blast
  have tw: "takeWhile is_digit (decimal n @ c # rest) = decimal n"
    using all assms(1) by (simp add: takeWhile_append2)
  have dw: "dropWhile is_digit (decimal n @ c # rest) = c # rest"
    using all assms(1) by (simp add: dropWhile_append2)
  have lead: "\<not> (hd (decimal n) = CHR ''0'' \<and> tl (decimal n) \<noteq> [])"
    using decimal_leading_zero [of n] by (auto simp add: decimal_zero)
  show ?thesis
    using assms(2) lead
    by (simp add: scan_digits_def tw dw decimal_nonempty digits_value_decimal Let_def)
qed

lemma decimal_head: "\<exists>d ds. decimal n = d # ds \<and> is_digit d"
proof (cases "decimal n")
  case Nil
  then show ?thesis by (simp add: decimal_nonempty)
next
  case (Cons d ds)
  then have "d \<in> set (decimal n)" by simp
  then show ?thesis using Cons decimal_digits by blast
qed

lemma is_digit_chars:
  "is_digit d \<Longrightarrow> d \<noteq> CHR ''-'' \<and> d \<noteq> CHR 0x22 \<and> \<not> is_ws d"
  by (auto simp add: is_digit_def is_ws_def)

lemma scan_int_repr:
  assumes "\<not> is_digit c" and "c \<notin> set ''.eE''"
  shows "scan_int (int_repr i @ c # rest) = Some (i, c # rest)"
proof (cases "i < 0")
  case True
  then show ?thesis
    by (simp add: scan_int_def int_repr_def scan_digits_decimal [OF assms])
next
  case False
  obtain d ds where dd: "decimal (nat i) = d # ds" "is_digit d" using decimal_head by blast
  have "scan_int (decimal (nat i) @ c # rest) =
          (case scan_digits (decimal (nat i) @ c # rest) of None \<Rightarrow> None
           | Some (n, r) \<Rightarrow> Some (int n, r))"
    using dd is_digit_chars [OF dd(2)] by (simp add: scan_int_def)
  then show ?thesis
    using False by (simp add: int_repr_def scan_digits_decimal [OF assms])
qed

lemma scan_value_json_value:
  assumes "\<not> is_digit c" and "c \<notin> set ''.eE''"
  shows "scan_value (json_value v @ c # rest) = Some (v, c # rest)"
proof (cases v)
  case (PStr s)
  then show ?thesis by (simp add: json_value_def scan_value_string)
next
  case (PInt i)
  have "\<exists>d ds. int_repr i = d # ds \<and> d \<noteq> CHR 0x22"
    using decimal_head [of "nat (- i)"] decimal_head [of "nat i"] is_digit_chars
    by (auto simp add: int_repr_def)
  then obtain d ds where dd: "int_repr i = d # ds" "d \<noteq> CHR 0x22" by blast
  have "scan_value (int_repr i @ c # rest) =
          (case scan_int (int_repr i @ c # rest) of None \<Rightarrow> None
           | Some (j, r) \<Rightarrow> Some (PInt j, r))"
    using dd by (simp add: scan_value_def)
  then show ?thesis using PInt by (simp add: json_value_def scan_int_repr [OF assms])
qed

lemma skip_ws_json_value: "skip_ws (json_value v @ x) = json_value v @ x"
proof (cases v)
  case (PStr s)
  then show ?thesis
    by (simp add: json_value_def encode_basestring_ascii_def skip_ws_def is_ws_def)
next
  case (PInt i)
  have "\<exists>d ds. int_repr i = d # ds \<and> \<not> is_ws d"
    using decimal_head [of "nat (- i)"] decimal_head [of "nat i"] is_digit_chars
    by (auto simp add: int_repr_def is_ws_def)
  then show ?thesis using PInt by (auto simp add: json_value_def skip_ws_def)
qed

lemma delimiter_chars:
  "\<not> is_digit (CHR '','')" "CHR '','' \<notin> set ''.eE''" "\<not> is_ws (CHR '','')"
  "\<not> is_digit (CHR ''}'')" "CHR ''}'' \<notin> set ''.eE''" "\<not> is_ws (CHR ''}'')"
  by (simp_all add: is_digit_def is_ws_def)

lemma skip_ws_simps:
  "skip_ws (CHR '' '' # x) = skip_ws x"
  "skip_ws (CHR '':'' # x) = CHR '':'' # x"
  "skip_ws (CHR '','' # x) = CHR '','' # x"
  "skip_ws (CHR ''}'' # x) = CHR ''}'' # x"
  "skip_ws (CHR ''{'' # x) = CHR ''{'' # x"
  "skip_ws (CHR 0x22 # x) = CHR 0x22 # x"
  "skip_ws [] = []"
  by (simp_all add: skip_ws_def is_ws_def)

lemma json_item_unfold:
  "json_item (k, v) @ x =
     CHR 0x22 # concat (map json_escape_char k) @ CHR 0x22 # CHR '':'' # CHR '' '' # json_value v @ x"
  by (simp add: json_item_def encode_basestring_ascii_def)

lemma scan_items_last:
  "scan_items (Suc n) (json_item (k, v) @ ''}'') = Some [(k, v)]"
  by (simp add: json_item_unfold scanstring_escaped skip_ws_simps skip_ws_json_value
      scan_value_json_value delimiter_chars)

lemma scan_items_more:
  "scan_items (Suc n) (json_item (k, v) @ '', '' @ x) =
     (case scan_items n (skip_ws x) of None \<Rightarrow> None | Some kvs \<Rightarrow> Some ((k, v) # kvs))"
  by (simp add: json_item_unfold scanstring_escaped skip_ws_simps skip_ws_json_value
      scan_value_json_value delimiter_chars)

lemma skip_ws_json_item: "skip_ws (json_item kv @ x) = json_item kv @ x"
  by (simp add: json_item_def encode_basestring_ascii_def skip_ws_simps)

lemma skip_ws_join_items:
  "kvs \<noteq> [] \<Longrightarrow> skip_ws (join_items (map json_item kvs) @ x) = join_items (map json_item kvs) @ x"
proof (cases kvs)
  case Nil
  assume "kvs \<noteq> []"
  with Nil show ?thesis by simp
next
  case (Cons kv rest)
  then show ?thesis by (cases rest) (simp_all add: skip_ws_json_item)
qed

lemma scan_items_join:
  "kvs \<noteq> [] \<Longrightarrow> length kvs \<le> n \<Longrightarrow>
     scan_items n (join_items (map json_item kvs) @ ''}'') = Some kvs"
proof (induction kvs arbitrary: n rule: list_nonempty_induct)
  case (single kv)
  then obtain m where "n = Suc m" by (cases n) auto
  then show ?case using scan_items_last [of m "fst kv" "snd kv"] by simp
next
  case (cons kv kvs)
  then obtain m where n: "n = Suc m" and m: "length kvs \<le> m" by (cases n) auto
  obtain kv' rest where kvs: "kvs = kv' # rest" using cons.hyps by (cases kvs) auto
  have eq: "join_items (map json_item (kv # kvs)) @ ''}'' =
          json_item (fst kv, snd kv) @ '', '' @ (join_items (map json_item kvs) @ ''}'')"
    by (simp add: kvs)
  have sk: "skip_ws (join_items (map json_item kvs) @ ''}'') = join_items (map json_item kvs) @ ''}''"
    by (rule skip_ws_join_items [OF cons.hyps])
  show ?case
    unfolding n eq scan_items_more sk cons.IH [OF m] by simp
qed

lemma length_join_items: "length kvs \<le> length (join_items (map json_item kvs))"
proof (induction kvs rule: induct_list012)
  case 1
  then show ?case by simp
next
  case (2 kv)
  then show ?case by (simp add: json_item_def)
next
  case (3 kv kv' kvs)
  then show ?case by (simp add: json_item_def)
qed

lemma json_loads_dumps: "json_loads (json_dumps d) = Some d"
proof (cases "d = []")
  case True
  then show ?thesis by (simp add: json_loads_def json_dumps_def skip_ws_simps)
next
  case False
  then obtain kv rest where d: "d = kv # rest" by (cases d) auto
  obtain t where hd_item: "join_items (map json_item d) = CHR 0x22 # t"
    using d by (cases rest) (simp_all add: json_item_def encode_basestring_ascii_def)
  have len: "length d \<le> length (json_dumps d)"
    using length_join_items [of d] by (simp add: json_dumps_def)
  have "json_loads (json_dumps d) =
          scan_items (length (json_dumps d)) (join_items (map json_item d) @ ''}'')"
    using skip_ws_join_items [OF False, of "''}''"] hd_item
    by (simp add: json_loads_def json_dumps_def skip_ws_simps)
  then show ?thesis using scan_items_join [OF False len] by simp
qed

subsection \<open>The loop and the service\<close>

lemmas service_defs = log_line_def sendto_def sleep_def

lemma foldl_flag_set:
  "\<forall>e \<in> set es. snd e = Flag_set \<Longrightarrow> foldl apply_flag_op True es"
  by (induction es) (simp_all add: apply_flag_op_def)

text \<open>
  A flag set at time \<open>T\<close> reads as set at every test within one interval after \<open>T\<close>,
  when no event that follows it within this interval clears it.
\<close>

lemma is_set_after_stop:
  assumes ev: "flag_events env = pre @ (T, Flag_set) # post"
    and nc: "\<forall>e \<in> set post. snd e = Flag_clear \<longrightarrow> T + 5 < fst e"
    and t0: "t0 \<le> T" and lo: "T < clock s" and hi: "clock s \<le> T + 5"
  shows "is_set env t0 s"
proof -
  let ?P = "\<lambda>e. t0 \<le> fst e \<and>
              (if events_before_check env then fst e \<le> clock s else fst e < clock s)"
  have "\<forall>e \<in> set (filter ?P post). snd e = Flag_set"
  proof
    fix e assume e: "e \<in> set (filter ?P post)"
    then have "fst e \<le> clock s" by (auto split: if_splits)
    with hi have "\<not> T + 5 < fst e" by simp
    with nc e have "snd e \<noteq> Flag_clear" by auto
    then show "snd e = Flag_set" by (cases "snd e") simp_all
  qed
  then have tail: "foldl apply_flag_op True (filter ?P post)" by (rule foldl_flag_set)
  have "seen_events env t0 (clock s) = filter ?P pre @ (T, Flag_set) # filter ?P post"
    using t0 lo by (auto simp add: seen_events_def ev)
  then show ?thesis
    using tail by (simp add: is_set_def apply_flag_op_def)
qed

lemma loop_packets:
  assumes "p \<in> set (sent (snd (broadcast_loop cfg env t0 k ip rs s)))"
  shows "p \<in> set (sent s) \<or>
         (datagram p = json_dumps (discovery_payload cfg k ip) \<and> dest_port p = UDP_PORT cfg)"
  using assms
proof (induction rs arbitrary: s)
  case Nil
  then show ?case by simp
next
  case (Cons r rs)
  show ?case
  proof (cases "is_set env t0 s")
    case True
    with Cons.prems show ?thesis by simp
  next
    case False
    show ?thesis
    proof (cases r)
      case Send_ok
      let ?s' = "sleep 5 (log_line INFO ''Broadcast sent over UDP port''
                   (sendto (json_dumps (discovery_payload cfg k ip)) (UDP_PORT cfg) s))"
      from Cons.prems False Send_ok
      have "p \<in> set (sent (snd (broadcast_loop cfg env t0 k ip rs ?s')))" by (simp add: Let_def)
      from Cons.IH [OF this] show ?thesis by (auto simp add: service_defs)
    next
      case Send_raises
      let ?s' = "log_line WARNING ''Broadcast error'' s"
      from Cons.prems False Send_raises
      have "p \<in> set (sent (snd (broadcast_loop cfg env t0 k ip rs ?s')))" by simp
      from Cons.IH [OF this] show ?thesis by (auto simp add: service_defs)
    qed
  qed
qed

lemma loop_times:
  assumes late: "\<And>s'. T < clock s' \<Longrightarrow> clock s' \<le> T + 5 \<Longrightarrow> is_set env t0 s'"
    and "clock s \<le> T + 5"
  shows "clock (snd (broadcast_loop cfg env t0 k ip rs s)) \<le> T + 5 \<and>
         (\<forall>p \<in> set (sent (snd (broadcast_loop cfg env t0 k ip rs s))).
            p \<in> set (sent s) \<or> sent_at p \<le> T)"
  using assms(2)
proof (induction rs arbitrary: s)
  case Nil
  then show ?case by simp
next
  case (Cons r rs)
  show ?case
  proof (cases "is_set env t0 s")
    case True
    with Cons.prems show ?thesis by simp
  next
    case False
    with late Cons.prems have c: "clock s \<le> T" by (meson not_le_imp_less)
    show ?thesis
    proof (cases r)
      case Send_ok
      let ?s' = "sleep 5 (log_line INFO ''Broadcast sent over UDP port''
                   (sendto (json_dumps (discovery_payload cfg k ip)) (UDP_PORT cfg) s))"
      have "clock ?s' \<le> T + 5" using c by (simp add: service_defs)
      from Cons.IH [OF this] show ?thesis
        using False Send_ok c by (auto simp add: Let_def service_defs)
    next
      case Send_raises
      let ?s' = "log_line WARNING ''Broadcast error'' s"
      have "clock ?s' \<le> T + 5" using c by (simp add: service_defs)
      from Cons.IH [OF this] show ?thesis
        using False Send_raises by (auto simp add: service_defs)
    qed
  qed
qed

lemma loop_leaves:
  assumes late: "\<And>s'. T < clock s' \<Longrightarrow> clock s' \<le> T + 5 \<Longrightarrow> is_set env t0 s'"
    and "clock s \<le> T + 5" and "T < clock s + 5 * count_ok rs"
  shows "fst (broadcast_loop cfg env t0 k ip rs s)"
  using assms(2,3)
proof (induction rs arbitrary: s)
  case Nil
  then show ?case using late by (simp add: count_ok_def)
next
  case (Cons r rs)
  show ?case
  proof (cases "is_set env t0 s")
    case True
    then show ?thesis by simp
  next
    case False
    with late Cons.prems have c: "clock s \<le> T" by (meson not_le_imp_less)
    show ?thesis
    proof (cases r)
      case Send_ok
      let ?s' = "sleep 5 (log_line INFO ''Broadcast sent over UDP port''
                   (sendto (json_dumps (discovery_payload cfg k ip)) (UDP_PORT cfg) s))"
      have 1: "clock ?s' \<le> T + 5" using c by (simp add: service_defs)
      have 2: "T < clock ?s' + 5 * count_ok rs"
        using Cons.prems(2) Send_ok by (simp add: count_ok_def service_defs)
      from Cons.IH [OF 1 2] show ?thesis using False Send_ok by (simp add: Let_def)
    next
      case Send_raises
      let ?s' = "log_line WARNING ''Broadcast error'' s"
      have 1: "clock ?s' \<le> T + 5" using c by (simp add: service_defs)
      have 2: "T < clock ?s' + 5 * count_ok rs"
        using Cons.prems(2) Send_raises by (simp add: count_ok_def service_defs)
      from Cons.IH [OF 1 2] show ?thesis using False Send_raises by simp
    qed
  qed
qed

lemma loop_server: "server (snd (broadcast_loop cfg env t0 k ip rs s)) = server s"
proof (induction rs arbitrary: s)
  case Nil
  then show ?case by simp
next
  case (Cons r rs)
  then show ?case by (cases r) (simp_all add: Let_def service_defs)
qed

lemma clear_flag:
  "(if stop_flag s then s\<lparr>stop_flag := False\<rparr> else s) = s\<lparr>stop_flag := False\<rparr>"
  by (cases s) auto

lemmas block_defs = try_block_def finally_block_def service_at_def Let_def

lemma run_service_no_address:
  assumes "gethostbyname env = Inl e"
  shows "run_service cfg env (service_at t0 f) =
           (Raised e,
            \<lparr>clock = t0, stop_flag = False, server = Unbound, sent = [],
             logged = [(INFO, ''Starting reacher.REACHER broadcast service...'')]\<rparr>)"
  using assms unfolding run_service_def clear_flag by (simp add: block_defs service_defs)

lemma run_service_no_socket:
  assumes "gethostbyname env = Inr ip" and "socket_raises env"
  shows "run_service cfg env (service_at t0 f) =
           (Raised UnboundLocalError,
            \<lparr>clock = t0, stop_flag = False, server = Unbound, sent = [],
             logged = [(INFO, ''Starting reacher.REACHER broadcast service...''),
                       (INFO, ''Generated unique key: '' @ uuid_str (uuid4 (urandom16 env))),
                       (ERROR, ''Broadcast service failed'')]\<rparr>)"
  using assms unfolding run_service_def clear_flag by (simp add: block_defs service_defs)

lemma run_service_no_setup:
  assumes "gethostbyname env = Inr ip" and "\<not> socket_raises env"
    and "setsockopt_raises env \<or> bind_raises env"
  shows "run_service cfg env (service_at t0 f) =
           (Returned,
            \<lparr>clock = t0, stop_flag = False, server = Socket_closed, sent = [],
             logged = [(INFO, ''Starting reacher.REACHER broadcast service...''),
                       (INFO, ''Generated unique key: '' @ uuid_str (uuid4 (urandom16 env))),
                       (ERROR, ''Broadcast service failed''),
                       (INFO, ''Broadcast service stopped.'')]\<rparr>)"
  using assms unfolding run_service_def clear_flag
  by (auto simp add: block_defs service_defs)

lemma run_service_loop:
  assumes "gethostbyname env = Inr ip" and "\<not> socket_raises env"
    and "\<not> setsockopt_raises env" and "\<not> bind_raises env"
    and "broadcast_loop cfg env t0 (uuid_str (uuid4 (urandom16 env))) ip (sendto_outcomes env)
           (loop_entry t0 (uuid_str (uuid4 (urandom16 env)))) = (b, s')"
  shows "run_service cfg env (service_at t0 f) =
           (if b then
              (Returned, s'\<lparr>server := Socket_closed,
                            logged := logged s' @ [(INFO, ''Broadcast service stopped.'')]\<rparr>)
            else (Still_running, s'))"
proof -
  have "server s' = Socket_open"
    using loop_server [of cfg env t0 "uuid_str (uuid4 (urandom16 env))" ip "sendto_outcomes env"
        "loop_entry t0 (uuid_str (uuid4 (urandom16 env)))"] assms(5)
    by (simp add: loop_entry_def)
  then show ?thesis
    using assms unfolding run_service_def clear_flag
    by (simp add: block_defs service_defs loop_entry_def)
qed

text \<open>
  The four ways through \<open>run_service\<close>: no address, no socket, no socket option or
  binding, and the loop.
\<close>

lemma run_service_cases:
  obtains
    (no_address) e where "gethostbyname env = Inl e"
  | (no_socket) ip where "gethostbyname env = Inr ip" "socket_raises env"
  | (no_setup) ip where "gethostbyname env = Inr ip" "\<not> socket_raises env"
      "setsockopt_raises env \<or> bind_raises env"
  | (loop) ip b s' where "gethostbyname env = Inr ip" "\<not> socket_raises env"
      "broadcast_loop cfg env t0 (uuid_str (uuid4 (urandom16 env))) ip (sendto_outcomes env)
         (loop_entry t0 (uuid_str (uuid4 (urandom16 env)))) = (b, s')"
      "run_service cfg env (service_at t0 f) =
         (if b then
            (Returned, s'\<lparr>server := Socket_closed,
                          logged := logged s' @ [(INFO, ''Broadcast service stopped.'')]\<rparr>)
          else (Still_running, s'))"
proof (cases "gethostbyname env")
  case (Inl e)
  then show ?thesis by (rule no_address)
next
  case (Inr ip)
  let ?k = "uuid_str (uuid4 (urandom16 env))"
  show ?thesis
  proof (cases "socket_raises env")
    case True
    with Inr show ?thesis by (rule no_socket)
  next
    case sock: False
    show ?thesis
    proof (cases "setsockopt_raises env \<or> bind_raises env")
      case True
      with Inr sock show ?thesis by (rule no_setup)
    next
      case False
      obtain b s' where lp:
        "broadcast_loop cfg env t0 ?k ip (sendto_outcomes env) (loop_entry t0 ?k) = (b, s')"
        by (cases "broadcast_loop cfg env t0 ?k ip (sendto_outcomes env) (loop_entry t0 ?k)")
      from False have "\<not> setsockopt_raises env" "\<not> bind_raises env" by simp_all
      then have run: "run_service cfg env (service_at t0 f) =
         (if b then
            (Returned, s'\<lparr>server := Socket_closed,
                          logged := logged s' @ [(INFO, ''Broadcast service stopped.'')]\<rparr>)
          else (Still_running, s'))"
        using run_service_loop [OF Inr sock _ _ lp] by blast
      show ?thesis by (rule loop [OF Inr sock lp run])
    qed
  qed
qed

lemma run_service_packets:
  assumes "p \<in> set (sent (snd (run_service cfg env (service_at t0 f))))"
  shows "\<exists>ip. gethostbyname env = Inr ip \<and>
           datagram p = json_dumps (discovery_payload cfg (uuid_str (uuid4 (urandom16 env))) ip) \<and>
           dest_port p = UDP_PORT cfg"
proof (cases rule: run_service_cases [where env = env and cfg = cfg and ?t0.0 = t0 and f = f])
  case (no_address e)
  with assms show ?thesis by (simp add: run_service_no_address)
next
  case (no_socket ip)
  with assms show ?thesis by (simp add: run_service_no_socket)
next
  case (no_setup ip)
  with assms show ?thesis by (simp add: run_service_no_setup)
next
  case (loop ip b s')
  with assms have "p \<in> set (sent s')" by (simp split: if_splits)
  then have "p \<in> set (sent (snd (broadcast_loop cfg env t0 (uuid_str (uuid4 (urandom16 env))) ip
               (sendto_outcomes env) (loop_entry t0 (uuid_str (uuid4 (urandom16 env)))))))"
    using loop(3) by simp
  from loop_packets [OF this] show ?thesis
    using loop(1) by (simp add: loop_entry_def)
qed

lemma run_service_times:
  assumes late: "\<And>s'. T < clock s' \<Longrightarrow> clock s' \<le> T + 5 \<Longrightarrow> is_set env t0 s'"
    and "t0 \<le> T"
  shows "clock (snd (run_service cfg env (service_at t0 f))) \<le> T + 5 \<and>
         (\<forall>p \<in> set (sent (snd (run_service cfg env (service_at t0 f)))). sent_at p \<le> T)"
proof (cases rule: run_service_cases [where env = env and cfg = cfg and ?t0.0 = t0 and f = f])
  case (no_address e)
  with assms(2) show ?thesis by (simp add: run_service_no_address)
next
  case (no_socket ip)
  with assms(2) show ?thesis by (simp add: run_service_no_socket)
next
  case (no_setup ip)
  with assms(2) show ?thesis by (simp add: run_service_no_setup)
next
  case (loop ip b s')
  have "clock (loop_entry t0 (uuid_str (uuid4 (urandom16 env)))) \<le> T + 5"
    using assms(2) by (simp add: loop_entry_def)
  from loop_times [of T env t0, OF late this, of cfg "uuid_str (uuid4 (urandom16 env))" ip
      "sendto_outcomes env"] loop(3)
  have "clock s' \<le> T + 5 \<and> (\<forall>p \<in> set (sent s'). sent_at p \<le> T)"
    by (simp add: loop_entry_def)
  then show ?thesis by (simp add: loop(4))
qed

lemma run_service_leaves:
  assumes late: "\<And>s'. T < clock s' \<Longrightarrow> clock s' \<le> T + 5 \<Longrightarrow> is_set env t0 s'"
    and "t0 \<le> T" and "T < t0 + 5 * count_ok (sendto_outcomes env)"
  shows "fst (run_service cfg env (service_at t0 f)) \<noteq> Still_running"
proof (cases rule: run_service_cases [where env = env and cfg = cfg and ?t0.0 = t0 and f = f])
  case (no_address e)
  then show ?thesis by (simp add: run_service_no_address)
next
  case (no_socket ip)
  then show ?thesis by (simp add: run_service_no_socket)
next
  case (no_setup ip)
  then show ?thesis by (simp add: run_service_no_setup)
next
  case (loop ip b s')
  have 1: "clock (loop_entry t0 (uuid_str (uuid4 (urandom16 env)))) \<le> T + 5"
    using assms(2) by (simp add: loop_entry_def)
  have 2: "T < clock (loop_entry t0 (uuid_str (uuid4 (urandom16 env)))) +
             5 * count_ok (sendto_outcomes env)"
    using assms(3) by (simp add: loop_entry_def)
  from loop_leaves [of T env t0, OF late 1 2, of cfg "uuid_str (uuid4 (urandom16 env))" ip] loop(3)
  have b by simp
  then show ?thesis by (simp add: loop(4))
qed

subsection \<open>Claims about the service\<close>

text \<open>The runs of the service in the example environments, from time 0.\<close>

lemmas flag_defs = is_set_def seen_events_def apply_flag_op_def

lemma run_stopping_environment:
  "run_service default_config stopping_environment (service_at 0 False) =
     (Returned,
      \<lparr>clock = 10, stop_flag = False, server = Socket_closed,
       sent =
         [\<lparr>sent_at = 0,
           datagram = json_dumps (discovery_payload default_config
             (uuid_str (uuid4 0x0123456789abcdef0123456789abcdef)) ''192.168.1.20''),
           dest_port = 7899\<rparr>,
          \<lparr>sent_at = 5,
           datagram = json_dumps (discovery_payload default_config
             (uuid_str (uuid4 0x0123456789abcdef0123456789abcdef)) ''192.168.1.20''),
           dest_port = 7899\<rparr>],
       logged =
         [(INFO, ''Starting reacher.REACHER broadcast service...''),
          (INFO, ''Generated unique key: '' @ uuid_str (uuid4 0x0123456789abcdef0123456789abcdef)),
          (INFO, ''Broadcast sent over UDP port''),
          (WARNING, ''Broadcast error''),
          (INFO, ''Broadcast sent over UDP port''),
          (INFO, ''Broadcast service stopped.'')]\<rparr>)"
  unfolding run_service_def clear_flag
  by (simp add: block_defs service_defs stopping_environment_def quiet_environment_def
      default_config_def flag_defs)

lemma run_second_start_environment:
  "sent (snd (run_service default_config second_start_environment (service_at 0 False))) =
     [\<lparr>sent_at = 0,
       datagram = json_dumps (discovery_payload default_config
         (uuid_str (uuid4 0xfedcba9876543210fedcba9876543210)) ''192.168.1.20''),
       dest_port = 7899\<rparr>,
      \<lparr>sent_at = 5,
       datagram = json_dumps (discovery_payload default_config
         (uuid_str (uuid4 0xfedcba9876543210fedcba9876543210)) ''192.168.1.20''),
       dest_port = 7899\<rparr>]"
  unfolding run_service_def clear_flag
  by (simp add: block_defs service_defs second_start_environment_def stopping_environment_def
      quiet_environment_def default_config_def flag_defs)

lemma run_restarting_environment:
  "fst (run_service default_config restarting_environment (service_at 0 False)) = Still_running \<and>
   map sent_at (sent (snd (run_service default_config restarting_environment (service_at 0 False))))
     = [0, 5, 10]"
  unfolding run_service_def clear_flag
  by (simp add: block_defs service_defs restarting_environment_def quiet_environment_def
      default_config_def flag_defs)

lemma example_key:
  "uuid_str (uuid4 0x0123456789abcdef0123456789abcdef) = ''01234567-89ab-4def-8123-456789abcdef''"
  by code_simp

lemma second_key:
  "uuid_str (uuid4 0xfedcba9876543210fedcba9876543210) = ''fedcba98-7654-4210-bedc-ba9876543210''"
  by code_simp

lemma datagram_key_dumps:
  "datagram p = json_dumps (discovery_payload cfg k ip) \<Longrightarrow> datagram_key p = Some (PStr k)"
  by (simp add: datagram_key_def json_loads_dumps discovery_payload_def)

text \<open>
  Claim C3: every payload the send loop produces reads back as an object with exactly the
  five fields message, key, name, address and port, in this order; the port is the
  configured HTTP port; the key is the text of a version-4 UUID. The key is made from the
  random bytes this call of \<open>run_service\<close> drew: a packet of any start of the service
  carries the same key exactly when the two starts drew the same random bits. So the
  packets of one run share their key, and a start that draws anew has a key of its own.
\<close>

theorem discovery_datagram_fields:
  assumes "p \<in> set (sent (snd (run_service cfg env (service_at t0 f))))"
  shows "(\<exists>ip. gethostbyname env = Inr ip \<and>
            json_loads (datagram p) =
              Some [(''message'', PStr ''REACHER_DEVICE_DISCOVERY''),
                    (''key'', PStr (uuid_str (uuid4 (urandom16 env)))),
                    (''name'', PStr ''REACHER_Device''),
                    (''address'', PStr ip),
                    (''port'', PInt (HTTP_PORT cfg))]) \<and>
         is_uuid4_text (uuid_str (uuid4 (urandom16 env))) \<and>
         dest_port p = UDP_PORT cfg \<and>
         datagram_key p = Some (PStr (uuid_str (uuid4 (urandom16 env)))) \<and>
         (\<forall>cfg' env' t f' q.
            q \<in> set (sent (snd (run_service cfg' env' (service_at t f')))) \<longrightarrow>
              (datagram_key q = datagram_key p) =
              (random_bits (urandom16 env') = random_bits (urandom16 env)))"
proof -
  from run_service_packets [OF assms] obtain ip where
    ip: "gethostbyname env = Inr ip" and
    d: "datagram p = json_dumps (discovery_payload cfg (uuid_str (uuid4 (urandom16 env))) ip)" and
    port: "dest_port p = UDP_PORT cfg"
    by blast
  have "json_loads (datagram p) = Some (discovery_payload cfg (uuid_str (uuid4 (urandom16 env))) ip)"
    unfolding d by (rule json_loads_dumps)
  then have fields: "\<exists>ip. gethostbyname env = Inr ip \<and>
            json_loads (datagram p) =
              Some [(''message'', PStr ''REACHER_DEVICE_DISCOVERY''),
                    (''key'', PStr (uuid_str (uuid4 (urandom16 env)))),
                    (''name'', PStr ''REACHER_Device''),
                    (''address'', PStr ip),
                    (''port'', PInt (HTTP_PORT cfg))]"
    using ip by (simp add: discovery_payload_def)
  have key: "datagram_key p = Some (PStr (uuid_str (uuid4 (urandom16 env))))"
    using d by (rule datagram_key_dumps)
  have other: "(datagram_key q = datagram_key p) =
                 (random_bits (urandom16 env') = random_bits (urandom16 env))"
    if "q \<in> set (sent (snd (run_service cfg' env' (service_at t f'))))" for cfg' env' t f' q
  proof -
    from run_service_packets [OF that] obtain ip' where
      "datagram q = json_dumps (discovery_payload cfg' (uuid_str (uuid4 (urandom16 env'))) ip')"
      by blast
    then have "datagram_key q = Some (PStr (uuid_str (uuid4 (urandom16 env'))))"
      by (rule datagram_key_dumps)
    then show ?thesis by (simp add: key key_eq_iff)
  qed
  show ?thesis using fields uuid4_text port key other by blast
qed

theorem discovery_datagram_fields_witness:
  "json_loads (datagram (hd (sent (snd
      (run_service default_config stopping_environment (service_at 0 False)))))) =
     Some [(''message'', PStr ''REACHER_DEVICE_DISCOVERY''),
           (''key'', PStr ''01234567-89ab-4def-8123-456789abcdef''),
           (''name'', PStr ''REACHER_Device''),
           (''address'', PStr ''192.168.1.20''),
           (''port'', PInt 6229)] \<and>
   is_uuid4_text ''01234567-89ab-4def-8123-456789abcdef'' \<and>
   dest_port (hd (sent (snd
      (run_service default_config stopping_environment (service_at 0 False))))) = 7899 \<and>
   datagram_key (last (sent (snd
      (run_service default_config stopping_environment (service_at 0 False))))) =
     Some (PStr ''01234567-89ab-4def-8123-456789abcdef'') \<and>
   datagram_key (hd (sent (snd
      (run_service default_config second_start_environment (service_at 0 False))))) =
     Some (PStr ''fedcba98-7654-4210-bedc-ba9876543210'') \<and>
   is_uuid4_text ''fedcba98-7654-4210-bedc-ba9876543210''"
proof -
  let ?run = "run_service default_config stopping_environment (service_at 0 False)"
  let ?run2 = "run_service default_config second_start_environment (service_at 0 False)"
  have h: "hd (sent (snd ?run)) \<in> set (sent (snd ?run))"
    by (simp add: run_stopping_environment)
  have l: "last (sent (snd ?run)) \<in> set (sent (snd ?run))"
    by (simp add: run_stopping_environment)
  have h2: "hd (sent (snd ?run2)) \<in> set (sent (snd ?run2))"
    by (simp add: run_second_start_environment)
  show ?thesis
    using discovery_datagram_fields [OF h] discovery_datagram_fields [OF l]
      discovery_datagram_fields [OF h2]
    by (simp add: second_start_environment_def stopping_environment_def quiet_environment_def
        default_config_def example_key second_key)
qed

text \<open>
  Claim C4, as stated, holds of every execution of the loop. It does not when the flag
  is cleared again before the loop tests it, as the first lines of another call of
  \<open>run_service\<close> do: with the flag set at time 1 and cleared at time 2, the loop tests
  the flag at the times 5 and 10, finds it clear and sends; the packet of time 10 is
  later than one interval past the stop, and the loop is still running.
\<close>

theorem restart_clears_stop:
  "(1, Flag_set) \<in> set (flag_events restarting_environment) \<and>
   map sent_at (sent (snd (run_service default_config restarting_environment (service_at 0 False))))
     = [0, 5, 10] \<and>
   (1 :: nat) + 5 < 10 \<and>
   fst (run_service default_config restarting_environment (service_at 0 False)) = Still_running"
  by (simp add: run_restarting_environment) (simp add: restarting_environment_def)

text \<open>
  Claim C4, amended: when the stop flag is set at time \<open>T\<close> while the service runs, and
  no event within one interval after it clears the flag again, no packet is sent later
  than \<open>T\<close>, so none later than one interval past \<open>T\<close>; the clock of the service never
  passes \<open>T + 5\<close>: after the request the loop finishes at most the wait it is in, or one
  more full wait when the request came just after a test of the flag. With sends that
  succeed often enough for the clock to pass \<open>T\<close>, the loop is left.
\<close>

theorem stop_bounds_sending:
  assumes "flag_events env = pre @ (T, Flag_set) # post"
    and "\<forall>e \<in> set post. snd e = Flag_clear \<longrightarrow> T + 5 < fst e"
    and "t0 \<le> T"
  shows "(\<forall>p \<in> set (sent (snd (run_service cfg env (service_at t0 f)))). sent_at p \<le> T) \<and>
         clock (snd (run_service cfg env (service_at t0 f))) \<le> T + 5 \<and>
         (T < t0 + 5 * count_ok (sendto_outcomes env) \<longrightarrow>
            fst (run_service cfg env (service_at t0 f)) \<noteq> Still_running)"
proof -
  have late: "is_set env t0 s'" if "T < clock s'" "clock s' \<le> T + 5" for s'
    using is_set_after_stop [OF assms that] .
  show ?thesis
    using run_service_times [of T env t0 cfg f, OF late assms(3)]
      run_service_leaves [of T env t0 cfg f, OF late assms(3)]
    by blast
qed

theorem stop_bounds_sending_witness:
  "flag_events stopping_environment = [] @ (5, Flag_set) # [] \<and>
   map sent_at (sent (snd (run_service default_config stopping_environment (service_at 0 False))))
     = [0, 5] \<and>
   clock (snd (run_service default_config stopping_environment (service_at 0 False))) = 5 + 5 \<and>
   fst (run_service default_config stopping_environment (service_at 0 False)) = Returned"
proof -
  have h1: "flag_events stopping_environment = [] @ (5, Flag_set) # []"
    by (simp add: stopping_environment_def)
  have h2: "\<forall>e \<in> set []. snd e = Flag_clear \<longrightarrow> (5 :: nat) + 5 < fst e" by simp
  have h3: "(0::nat) \<le> 5" by simp
  show ?thesis
    using stop_bounds_sending [OF h1 h2 h3, of default_config False] h1
    by (simp add: run_stopping_environment)
qed

text \<open>
  Claim C5: every execution of \<open>run_service\<close> ends without an error leaving it, and the
  socket is released on every exit. The code breaks it when \<open>socket.socket\<close> raises: the
  handler logs the failure, then \<open>server.close()\<close> in the \<open>finally\<close> block reads the
  unbound variable \<open>server\<close> and the UnboundLocalError leaves the function; the closing
  log line is not written. An error of \<open>gethostbyname\<close>, called before the \<open>try\<close>,
  leaves the function as well.
\<close>

theorem socket_creation_failure_escapes:
  "run_service cfg (env\<lparr>gethostbyname := Inr ip, socket_raises := True\<rparr>) (service_at t0 f) =
     (Raised UnboundLocalError,
      \<lparr>clock = t0, stop_flag = False, server = Unbound, sent = [],
       logged = [(INFO, ''Starting reacher.REACHER broadcast service...''),
                 (INFO, ''Generated unique key: '' @ uuid_str (uuid4 (urandom16 env))),
                 (ERROR, ''Broadcast service failed'')]\<rparr>) \<and>
   fst (run_service cfg (env\<lparr>gethostbyname := Inl e\<rparr>) (service_at t0 f)) = Raised e"
  by (simp add: run_service_no_socket [of _ ip] run_service_no_address [of _ e])

text \<open>
  What holds of the claim: once the socket exists, no error leaves the function, and a
  return finds the socket closed, also after a failure of \<open>setsockopt\<close> or \<open>bind\<close>.
\<close>

lemma run_service_releases_socket:
  assumes "gethostbyname env = Inr ip" and "\<not> socket_raises env"
  shows "fst (run_service cfg env (service_at t0 f)) \<in> {Returned, Still_running} \<and>
         (fst (run_service cfg env (service_at t0 f)) = Returned \<longrightarrow>
            server (snd (run_service cfg env (service_at t0 f))) = Socket_closed \<and>
            last (logged (snd (run_service cfg env (service_at t0 f)))) =
              (INFO, ''Broadcast service stopped.''))"
proof (cases rule: run_service_cases [where env = env and cfg = cfg and ?t0.0 = t0 and f = f])
  case (no_address e)
  with assms show ?thesis by simp
next
  case (no_socket ip)
  with assms show ?thesis by simp
next
  case (no_setup ip)
  then show ?thesis by (simp add: run_service_no_setup)
next
  case (loop ip b s')
  then show ?thesis by simp
qed

end
